theory Spec2Isabelle
  imports Main "HOL-Library.Word" "HOL-Library.Sublist" "HOL-Library.Monad_Syntax"
begin

section \<open>Strings and byte arrays\<close>

text \<open>
  \<open>QString\<close> and \<open>QByteArray\<close> are both modelled as \<open>string\<close> (a list of bytes); the
  conversions \<open>toLocal8Bit\<close> and \<open>toUtf8\<close> between them are the identity on this model.
\<close>

type_synonym QString = string
type_synonym QByteArray = string

definition CR :: char where
  "CR = CHR 0x0D"

definition LF :: char where
  "LF = CHR 0x0A"

definition CRLF :: QByteArray where
  "CRLF = [CR, LF]"

text \<open>\<open>isspace\<close> in the C locale: space, \<open>\t\<close>, \<open>\n\<close>, \<open>\v\<close>, \<open>\f\<close> and \<open>\r\<close>.\<close>

definition isSpace :: "char \<Rightarrow> bool" where
  "isSpace c = (c = CHR 0x20 \<or> c = CHR 0x09 \<or> c = CHR 0x0A \<or> c = CHR 0x0B
     \<or> c = CHR 0x0C \<or> c = CHR 0x0D)"

text \<open>\<open>QByteArray::trimmed\<close>: whitespace removed from both ends.\<close>

definition trimmed :: "QByteArray \<Rightarrow> QByteArray" where
  "trimmed s = rev (dropWhile isSpace (rev (dropWhile isSpace s)))"

text \<open>
  \<open>QByteArray::indexOf\<close>: the position of the first occurrence of the needle, \<open>None\<close> for
  the source's \<open>-1\<close>. The empty needle is found at position 0.
\<close>

fun indexOf :: "QByteArray \<Rightarrow> QByteArray \<Rightarrow> nat option" where
  "indexOf [] d = (if d = [] then Some 0 else None)"
| "indexOf (c # cs) d =
     (if prefix d (c # cs) then Some 0 else map_option Suc (indexOf cs d))"

text \<open>\<open>QString::startsWith\<close>.\<close>

definition startsWith :: "QString \<Rightarrow> QString \<Rightarrow> bool" where
  "startsWith s p = prefix p s"

text \<open>\<open>QStringList::value(i)\<close>: the element at \<open>i\<close>, the empty string out of range.\<close>

definition list_value :: "QString list \<Rightarrow> nat \<Rightarrow> QString" where
  "list_value xs i = (if i < length xs then xs ! i else [])"

subsection \<open>\<open>QString::toInt\<close>\<close>

text \<open>
  \<open>QString::toInt(&ok)\<close> in base 10, as Qt documents it: surrounding whitespace is
  ignored, one sign character \<open>+\<close> or \<open>-\<close> may lead, at least one decimal digit follows
  and nothing else; the conversion fails (\<open>ok = false\<close>, here \<open>None\<close>) when the value
  does not fit a signed 32-bit \<open>int\<close>.
\<close>

definition isDigit :: "char \<Rightarrow> bool" where
  "isDigit c = (48 \<le> (of_char c :: nat) \<and> (of_char c :: nat) \<le> 57)"

definition digitsValue :: "string \<Rightarrow> nat" where
  "digitsValue ds = foldl (\<lambda>a c. 10 * a + ((of_char c :: nat) - 48)) 0 ds"

definition toInt :: "QString \<Rightarrow> int option" where
  "toInt str =
     (let t = trimmed str;
          neg = (t \<noteq> [] \<and> hd t = CHR ''-'');
          ds = (if t \<noteq> [] \<and> (hd t = CHR ''-'' \<or> hd t = CHR ''+'') then tl t else t);
          v = (if neg then - int (digitsValue ds) else int (digitsValue ds))
      in if ds \<noteq> [] \<and> list_all isDigit ds \<and> - 2147483648 \<le> v \<and> v \<le> 2147483647
         then Some v else None)"

section \<open>The session's data\<close>

datatype SocketState =
  UnconnectedState | HostLookupState | ConnectingState | ConnectedState
  | BoundState | ListeningState | ClosingState

text \<open>The requests the session makes of its transport, apart from writes.\<close>

datatype SocketCall =
  ConnectToHost QString "16 word" | StartClientEncryption | DisconnectFromHost

text \<open>
  The transport object behind \<open>d->socket\<close>: its state as \<open>socket->state()\<close> reports it,
  whether it \<open>inherits("QSslSocket")\<close>, the byte arrays handed to \<open>socket->write\<close> in
  order, and the other calls made on it in order.
\<close>

record QAbstractSocket =
  sockState :: SocketState
  isSsl :: bool
  written :: "QByteArray list"
  calls :: "SocketCall list"

text \<open>
  An \<open>IrcBuffer\<close> object: \<open>ident\<close> stands for its address (two pointers are equal iff
  the records are), \<open>pattern\<close> is the constructor's argument.
\<close>

record IrcBuffer =
  ident :: nat
  pattern :: QString

text \<open>
  Modelled from the spec: the message classes (\<open>IrcNumericMessage\<close>, \<open>IrcJoinMessage\<close>, ...)
  and their \<open>fromString(prefix, params)\<close> are not among the source files. The spec has a
  message as a kind (a tagged variant) with the fields of the line it was parsed from;
  the model keeps the kind, the prefix and the parameter list.
\<close>

datatype MessageKind =
  Numeric | Join | Part | Topic | Names | List | Invite | Kick
  | ChannelMode | UserMode | CtcpAction | CtcpRequest | Private
  | CtcpReply | Notice | Who | Whois | Whowas

datatype IrcMessage = IrcMessage MessageKind QString "QString list"

text \<open>The signals of \<open>IrcSession\<close> that the source emits.\<close>

datatype Signal =
  Sig_connecting | Sig_password | Sig_connected | Sig_disconnected
  | Sig_messageReceived IrcMessage

text \<open>What the source prints through \<open>qDebug\<close>, \<open>qWarning\<close> and \<open>qCritical\<close>.\<close>

datatype LogEntry =
  DebugLine QByteArray | DebugError nat | DebugState SocketState
  | Warning string | Critical string

text \<open>
  \<open>IrcSessionPrivate\<close>. The fields up to \<open>buffers\<close> are the members of the class;
  \<open>buffers\<close> is an association list, newest entry first (the source removes with
  \<open>remove(key, value)\<close>, so the container keeps several values per key and \<open>value(key)\<close>
  is the one inserted last). \<open>emitted\<close> and \<open>logged\<close> record the signals emitted and
  the log lines printed so far, \<open>allocated\<close> counts the \<open>IrcBuffer\<close> objects created with
  \<open>new\<close>, so that each new object gets an address no earlier one has.
\<close>

record IrcSessionPrivate =
  buffer :: QByteArray
  socket :: "QAbstractSocket option"
  host :: QString
  port :: "16 word"
  userName :: QString
  nickName :: QString
  realName :: QString
  mainBuffer :: "IrcBuffer option"
  buffers :: "(QString \<times> IrcBuffer) list"
  emitted :: "Signal list"
  logged :: "LogEntry list"
  allocated :: nat

definition emit :: "Signal \<Rightarrow> IrcSessionPrivate \<Rightarrow> IrcSessionPrivate" where
  "emit sig s = s\<lparr>emitted := emitted s @ [sig]\<rparr>"

definition print :: "LogEntry \<Rightarrow> IrcSessionPrivate \<Rightarrow> IrcSessionPrivate" where
  "print e s = s\<lparr>logged := logged s @ [e]\<rparr>"

text \<open>
  \<open>socket->write(bytes)\<close> through a pointer that the source does not test: \<open>None\<close> is the
  null dereference.
\<close>

definition socket_write :: "QByteArray \<Rightarrow> IrcSessionPrivate \<Rightarrow> IrcSessionPrivate option" where
  "socket_write bytes s =
     (case socket s of
        None \<Rightarrow> None
      | Some k \<Rightarrow> Some (s\<lparr>socket := Some (k\<lparr>written := written k @ [bytes]\<rparr>)\<rparr>))"

text \<open>
  \<open>IrcSessionPrivate::raw\<close>: writes the message and CRLF when there is a socket. The
  source returns whether the transport accepted the write; the transport's answer is not
  modelled, the function returns the state.
\<close>

definition raw :: "QString \<Rightarrow> IrcSessionPrivate \<Rightarrow> IrcSessionPrivate" where
  "raw msg s =
     (case socket s of
        None \<Rightarrow> s
      | Some k \<Rightarrow> s\<lparr>socket := Some (k\<lparr>written := written k @ [msg @ CRLF]\<rparr>)\<rparr>)"

text \<open>\<open>IrcSession::createBuffer\<close>: \<open>new IrcBuffer(pattern, this)\<close>.\<close>

definition createBuffer :: "QString \<Rightarrow> IrcSessionPrivate \<Rightarrow> IrcBuffer \<times> IrcSessionPrivate" where
  "createBuffer pat s =
     (\<lparr>ident = allocated s, pattern = pat\<rparr>, s\<lparr>allocated := Suc (allocated s)\<rparr>)"

section \<open>Dispatching a line\<close>

text \<open>
  Modelled from the spec: \<open>Irc::RPL_WELCOME\<close> is declared in a header that is not among
  the source files; the spec calls it the welcome numeric of the standard IRC numeric
  table, which is 001.
\<close>

definition RPL_WELCOME :: "32 word" where
  "RPL_WELCOME = 1"

text \<open>
  The parser member (\<open>parser.parse(line)\<close>, then \<open>prefix()\<close>, \<open>command()\<close>, \<open>params()\<close>)
  is a class that is not among the source files: \<open>processLine\<close> takes it as the
  parameter \<open>P\<close>, a function from the line to the three results.
\<close>

type_synonym Parser = "QByteArray \<Rightarrow> QString \<times> QString \<times> QString list"

definition received :: "MessageKind \<Rightarrow> QString \<Rightarrow> QString list \<Rightarrow> IrcSessionPrivate
    \<Rightarrow> IrcSessionPrivate" where
  "received kind pfx params s = emit (Sig_messageReceived (IrcMessage kind pfx params)) s"

definition ctcpAction :: QString where
  "ctcpAction = CHR 0x01 # ''ACTION ''"

text \<open>
  The branches of \<open>processLine\<close> after the numeric test, in the source's order. Commands
  matched by no branch fall through: the source's last \<open>else\<close> is commented out.
\<close>

definition dispatchCommand :: "QString \<Rightarrow> QString \<Rightarrow> QString list \<Rightarrow> IrcSessionPrivate
    \<Rightarrow> IrcSessionPrivate" where
  "dispatchCommand pfx command params s =
     (if command = ''PING'' then raw (''PONG '' @ list_value params 0) s
      else if command = ''JOIN'' then received Join pfx params s
      else if command = ''PART'' then received Part pfx params s
      else if command = ''TOPIC'' then received Topic pfx params s
      else if command = ''NAMES'' then received Names pfx params s
      else if command = ''LIST'' then received List pfx params s
      else if command = ''INVITE'' then received Invite pfx params s
      else if command = ''KICK'' then received Kick pfx params s
      else if command = ''MODE'' then
        (if startsWith (list_value params 0) ''#''
         then received ChannelMode pfx params s
         else received UserMode pfx params s)
      else if command = ''PRIVMSG'' then
        (if startsWith (list_value params 1) ctcpAction
         then received CtcpAction pfx params s
         else if startsWith (list_value params 1) [CHR 0x01]
         then received CtcpRequest pfx params s
         else received Private pfx params s)
      else if command = ''NOTICE'' then
        (if startsWith (list_value params 1) [CHR 0x01]
         then received CtcpReply pfx params s
         else received Notice pfx params s)
      else if command = ''WHO'' then received Who pfx params s
      else if command = ''WHOIS'' then received Whois pfx params s
      else if command = ''WHOWAS'' then received Whowas pfx params s
      else s)"

text \<open>
  \<open>IrcSessionPrivate::processLine\<close>. \<open>uint code = command.toInt(&isNumeric)\<close> converts
  the \<open>int\<close> to 32 bits unsigned.
\<close>

definition processLine :: "Parser \<Rightarrow> QByteArray \<Rightarrow> IrcSessionPrivate \<Rightarrow> IrcSessionPrivate" where
  "processLine P line s =
     (case P line of (pfx, command, params) \<Rightarrow>
        (let s1 = print (DebugLine line) s in
         case toInt command of
           Some v \<Rightarrow>
             (let code = (word_of_int v :: 32 word);
                  s2 = (if code = RPL_WELCOME then emit Sig_connected s1 else s1)
              in received Numeric pfx params s2)
         | None \<Rightarrow> dispatchCommand pfx command params s1))"

section \<open>Framing\<close>

lemma buffer_dispatchCommand [simp]:
  "buffer (dispatchCommand pfx command params s) = buffer s"
  by (simp add: dispatchCommand_def received_def emit_def raw_def split: option.splits)

lemma buffer_processLine [simp]: "buffer (processLine P line s) = buffer s"
  by (simp add: processLine_def received_def emit_def print_def Let_def
      split: prod.splits option.splits)

lemma indexOf_bound: "indexOf b d = Some i \<Longrightarrow> i + length d \<le> length b"
proof (induction b arbitrary: i)
  case Nil
  then show ?case by (simp split: if_splits)
next
  case (Cons c cs)
  show ?case
  proof (cases "prefix d (c # cs)")
    case True
    with Cons.prems have "i = 0" by simp
    moreover from True have "length d \<le> length (c # cs)" by (rule prefix_length_le)
    ultimately show ?thesis by simp
  next
    case False
    with Cons.prems obtain j where "indexOf cs d = Some j" "i = Suc j" by auto
    with Cons.IH show ?thesis by simp
  qed
qed

text \<open>
  The body of the loop of \<open>IrcSessionPrivate::readLines\<close>, for a delimiter found at \<open>i\<close>.
\<close>

definition readLines_body :: "Parser \<Rightarrow> QByteArray \<Rightarrow> nat \<Rightarrow> IrcSessionPrivate
    \<Rightarrow> IrcSessionPrivate" where
  "readLines_body P delimiter i s =
     (let line = trimmed (take i (buffer s));
          s' = s\<lparr>buffer := drop (i + length delimiter) (buffer s)\<rparr>
      in if line \<noteq> [] then processLine P line s' else s')"

lemma buffer_readLines_body [simp]:
  "buffer (readLines_body P delimiter i s) = drop (i + length delimiter) (buffer s)"
  by (simp add: readLines_body_def Let_def)

text \<open>
  \<open>IrcSessionPrivate::readLines\<close>. The source calls it with \<open>"\r\n"\<close> and \<open>"\n"\<close> only;
  with an empty delimiter its loop would not end, and the model stops there instead.
\<close>

function readLines :: "Parser \<Rightarrow> QByteArray \<Rightarrow> IrcSessionPrivate \<Rightarrow> IrcSessionPrivate" where
  "readLines P delimiter s =
     (case indexOf (buffer s) delimiter of
        None \<Rightarrow> s
      | Some i \<Rightarrow>
          if delimiter = [] then s
          else readLines P delimiter (readLines_body P delimiter i s))"
  by pat_completeness auto
termination
proof (relation "measure (\<lambda>(P, d, s). length (buffer s))")
  show "wf (measure (\<lambda>(P, d, s). length (buffer s)))" by simp
next
  fix P :: Parser and delimiter :: QByteArray and s :: IrcSessionPrivate and i :: nat
  assume i: "indexOf (buffer s) delimiter = Some i" and d: "delimiter \<noteq> []"
  from indexOf_bound [OF i] d have "0 < length (buffer s)"
    by (cases delimiter) auto
  moreover from d have "0 < i + length delimiter" by simp
  ultimately have "length (drop (i + length delimiter) (buffer s)) < length (buffer s)"
    by simp
  then show "((P, delimiter, readLines_body P delimiter i s), (P, delimiter, s))
      \<in> measure (\<lambda>(P, d, s). length (buffer s))"
    by simp
qed

declare readLines.simps [simp del]

text \<open>
  \<open>IrcSessionPrivate::_q_readData\<close>; \<open>bytes\<close> is what \<open>socket->readAll()\<close> returns. The
  slot dereferences the socket pointer untested.
\<close>

definition q_readData :: "Parser \<Rightarrow> QByteArray \<Rightarrow> IrcSessionPrivate \<Rightarrow> IrcSessionPrivate option" where
  "q_readData P bytes s =
     (case socket s of
        None \<Rightarrow> None
      | Some k \<Rightarrow>
          Some (readLines P [LF] (readLines P CRLF (s\<lparr>buffer := buffer s @ bytes\<rparr>))))"

section \<open>The session's interface and slots\<close>

definition isConnected :: "IrcSessionPrivate \<Rightarrow> bool" where
  "isConnected s =
     (case socket s of
        None \<Rightarrow> False
      | Some k \<Rightarrow> sockState k = ConnectingState \<or> sockState k = ConnectedState)"

definition setHost :: "QString \<Rightarrow> IrcSessionPrivate \<Rightarrow> IrcSessionPrivate" where
  "setHost h s =
     (let s1 = (if isConnected s
                then print (Warning ''IrcSession::setHost() has no effect until re-connect'') s
                else s)
      in s1\<lparr>host := h\<rparr>)"

definition setPort :: "16 word \<Rightarrow> IrcSessionPrivate \<Rightarrow> IrcSessionPrivate" where
  "setPort p s =
     (let s1 = (if isConnected s
                then print (Warning ''IrcSession::setPort() has no effect until re-connect'') s
                else s)
      in s1\<lparr>port := p\<rparr>)"

definition setUserName :: "QString \<Rightarrow> IrcSessionPrivate \<Rightarrow> IrcSessionPrivate" where
  "setUserName n s =
     (let s1 = (if isConnected s
                then print (Warning ''IrcSession::setUserName() has no effect until re-connect'') s
                else s)
      in s1\<lparr>userName := n\<rparr>)"

definition setNickName :: "QString \<Rightarrow> IrcSessionPrivate \<Rightarrow> IrcSessionPrivate" where
  "setNickName n s = (if nickName s \<noteq> n then s\<lparr>nickName := n\<rparr> else s)"

definition setRealName :: "QString \<Rightarrow> IrcSessionPrivate \<Rightarrow> IrcSessionPrivate" where
  "setRealName n s =
     (let s1 = (if isConnected s
                then print (Warning ''IrcSession::setRealName() has no effect until re-connect'') s
                else s)
      in s1\<lparr>realName := n\<rparr>)"

text \<open>
  \<open>IrcSession::setSocket\<close>: the member is replaced; connecting the new socket's signals
  to the slots and disconnecting the old one's leave the fields as they are.
\<close>

definition setSocket :: "QAbstractSocket option \<Rightarrow> IrcSessionPrivate \<Rightarrow> IrcSessionPrivate" where
  "setSocket sock s = (if socket s \<noteq> sock then s\<lparr>socket := sock\<rparr> else s)"

text \<open>\<open>IrcSession::buffer(pattern)\<close>: \<open>d->buffers.value(pattern)\<close>, \<open>None\<close> for the null pointer.\<close>

definition IrcSession_buffer :: "QString \<Rightarrow> IrcSessionPrivate \<Rightarrow> IrcBuffer option" where
  "IrcSession_buffer pat s = map_of (buffers s) pat"

definition addBuffer :: "QString \<Rightarrow> IrcSessionPrivate \<Rightarrow> IrcBuffer \<times> IrcSessionPrivate" where
  "addBuffer pat s =
     (case createBuffer pat s of
        (b, s1) \<Rightarrow> (b, s1\<lparr>buffers := (pat, b) # buffers s1\<rparr>))"

definition removeBuffer :: "IrcBuffer option \<Rightarrow> IrcSessionPrivate \<Rightarrow> IrcSessionPrivate" where
  "removeBuffer b s =
     (case b of
        None \<Rightarrow> s
      | Some b' \<Rightarrow> s\<lparr>buffers := filter (\<lambda>e. e \<noteq> (pattern b', b')) (buffers s)\<rparr>)"

definition q_reconnect :: "IrcSessionPrivate \<Rightarrow> IrcSessionPrivate" where
  "q_reconnect s =
     (case socket s of
        None \<Rightarrow> s
      | Some k \<Rightarrow>
          s\<lparr>socket := Some (k\<lparr>calls := calls k @ [ConnectToHost (host s) (port s)]
                @ (if isSsl k then [StartClientEncryption] else [])\<rparr>)\<rparr>)"

definition IrcSession_open :: "IrcSessionPrivate \<Rightarrow> IrcSessionPrivate" where
  "IrcSession_open s =
     (if userName s = [] then print (Critical ''IrcSession::open(): userName is empty!'') s
      else if nickName s = [] then print (Critical ''IrcSession::open(): nickName is empty!'') s
      else if realName s = [] then print (Critical ''IrcSession::open(): realName is empty!'') s
      else q_reconnect s)"

definition IrcSession_close :: "IrcSessionPrivate \<Rightarrow> IrcSessionPrivate" where
  "IrcSession_close s =
     (case socket s of
        None \<Rightarrow> s
      | Some k \<Rightarrow> s\<lparr>socket := Some (k\<lparr>calls := calls k @ [DisconnectFromHost]\<rparr>)\<rparr>)"

text \<open>
  \<open>IrcSession::sendMessage\<close>: \<open>d->raw(message.toString())\<close>. \<open>toString\<close> belongs to the
  message classes, which are not among the source files; the model takes the text it
  returns.
\<close>

definition sendMessage :: "QString \<Rightarrow> IrcSessionPrivate \<Rightarrow> IrcSessionPrivate" where
  "sendMessage wire s = raw wire s"

text \<open>
  \<open>IrcSessionPrivate::_q_connected\<close>; \<open>pw\<close> is what the slots of the \<open>password\<close> signal
  leave in the string the signal passes them.
\<close>

definition q_connected :: "QString \<Rightarrow> IrcSessionPrivate \<Rightarrow> IrcSessionPrivate option" where
  "q_connected pw s =
     do {
       let s1 = emit Sig_connecting s;
       let s2 = emit Sig_password s1;
       s3 \<leftarrow> (if pw \<noteq> [] then socket_write (''PASS '' @ pw @ CRLF) s2 else Some s2);
       s4 \<leftarrow> socket_write (''NICK '' @ nickName s3 @ CRLF) s3;
       s5 \<leftarrow> socket_write
         (''USER '' @ userName s4 @ '' unknown unknown :'' @ realName s4 @ CRLF) s4;
       case createBuffer ''*'' s5 of (b, s6) \<Rightarrow> Some (s6\<lparr>mainBuffer := Some b\<rparr>)
     }"

definition q_disconnected :: "IrcSessionPrivate \<Rightarrow> IrcSessionPrivate" where
  "q_disconnected s = emit Sig_disconnected s"

definition q_error :: "nat \<Rightarrow> IrcSessionPrivate \<Rightarrow> IrcSessionPrivate" where
  "q_error e s = print (DebugError e) s"

definition q_state :: "SocketState \<Rightarrow> IrcSessionPrivate \<Rightarrow> IrcSessionPrivate" where
  "q_state st s = print (DebugState st) s"

text \<open>
  The constructors: \<open>IrcSessionPrivate::IrcSessionPrivate\<close>, then \<open>IrcSession::IrcSession\<close>
  sets a new \<open>QTcpSocket\<close>.
\<close>

definition IrcSessionPrivate_new :: IrcSessionPrivate where
  "IrcSessionPrivate_new =
     \<lparr>buffer = [], socket = None, host = [], port = 6667, userName = [], nickName = [],
      realName = [], mainBuffer = None, buffers = [], emitted = [], logged = [],
      allocated = 0\<rparr>"

definition QTcpSocket_new :: QAbstractSocket where
  "QTcpSocket_new = \<lparr>sockState = UnconnectedState, isSsl = False, written = [], calls = []\<rparr>"

definition IrcSession_new :: IrcSessionPrivate where
  "IrcSession_new = setSocket (Some QTcpSocket_new) IrcSessionPrivate_new"

section \<open>A session's life as a sequence of inputs\<close>

text \<open>
  What reaches a session: the calls of its owner and the notifications of its socket.
  A notification of the socket needs a socket; \<open>Socket_stateChanged\<close> carries the state
  the socket has entered.
\<close>

datatype Input =
  Call_setHost QString | Call_setPort "16 word" | Call_setUserName QString
  | Call_setNickName QString | Call_setRealName QString
  | Call_setSocket "QAbstractSocket option"
  | Call_addBuffer QString | Call_removeBuffer "IrcBuffer option"
  | Call_open | Call_close | Call_sendMessage QString
  | Socket_connected QString | Socket_disconnected | Socket_readyRead QByteArray
  | Socket_error nat | Socket_stateChanged SocketState

fun step :: "Parser \<Rightarrow> Input \<Rightarrow> IrcSessionPrivate \<Rightarrow> IrcSessionPrivate option" where
  "step P (Call_setHost h) s = Some (setHost h s)"
| "step P (Call_setPort p) s = Some (setPort p s)"
| "step P (Call_setUserName n) s = Some (setUserName n s)"
| "step P (Call_setNickName n) s = Some (setNickName n s)"
| "step P (Call_setRealName n) s = Some (setRealName n s)"
| "step P (Call_setSocket sock) s = Some (setSocket sock s)"
| "step P (Call_addBuffer pat) s = Some (snd (addBuffer pat s))"
| "step P (Call_removeBuffer b) s = Some (removeBuffer b s)"
| "step P Call_open s = Some (IrcSession_open s)"
| "step P Call_close s = Some (IrcSession_close s)"
| "step P (Call_sendMessage wire) s = Some (sendMessage wire s)"
| "step P (Socket_connected pw) s = q_connected pw s"
| "step P Socket_disconnected s =
     (case socket s of None \<Rightarrow> None | Some k \<Rightarrow> Some (q_disconnected s))"
| "step P (Socket_readyRead bytes) s = q_readData P bytes s"
| "step P (Socket_error e) s =
     (case socket s of None \<Rightarrow> None | Some k \<Rightarrow> Some (q_error e s))"
| "step P (Socket_stateChanged st) s =
     (case socket s of
        None \<Rightarrow> None
      | Some k \<Rightarrow> Some (q_state st (s\<lparr>socket := Some (k\<lparr>sockState := st\<rparr>)\<rparr>)))"

fun run :: "Parser \<Rightarrow> Input list \<Rightarrow> IrcSessionPrivate \<Rightarrow> IrcSessionPrivate option" where
  "run P [] s = Some s"
| "run P (i # is) s = (case step P i s of None \<Rightarrow> None | Some s' \<Rightarrow> run P is s')"

text \<open>Feeding the framer a stream in chunks: one \<open>_q_readData\<close> per chunk.\<close>

fun feed :: "Parser \<Rightarrow> QByteArray list \<Rightarrow> IrcSessionPrivate \<Rightarrow> IrcSessionPrivate option" where
  "feed P [] s = Some s"
| "feed P (c # cs) s = (case q_readData P c s of None \<Rightarrow> None | Some s' \<Rightarrow> feed P cs s')"

text \<open>The lines handed to \<open>processLine\<close> so far, as its \<open>qDebug\<close> output lists them.\<close>

definition linesYielded :: "IrcSessionPrivate \<Rightarrow> QByteArray list" where
  "linesYielded s = concat (map (\<lambda>e. case e of DebugLine l \<Rightarrow> [l] | _ \<Rightarrow> []) (logged s))"

text \<open>
  Streams in which no CRLF comes after a bare LF, that is, after an LF that does not
  directly follow a CR: once a line ended in a bare LF, no later line ends in CRLF.
  \<open>prevCR\<close> tells whether the byte before the stream was a CR. Streams whose lines all
  end in CRLF and streams whose lines all end in a bare LF are both of this kind.
\<close>

fun noCRLFAfterBareLF :: "bool \<Rightarrow> QByteArray \<Rightarrow> bool" where
  "noCRLFAfterBareLF prevCR [] = True"
| "noCRLFAfterBareLF prevCR (c # cs) =
     (if c = LF \<and> \<not> prevCR then indexOf cs CRLF = None
      else noCRLFAfterBareLF (c = CR) cs)"

section \<open>Predicates of the statements\<close>

text \<open>
  The test of \<open>processLine\<close> for the welcome reply: the command converts with \<open>toInt\<close>
  and the code equals \<open>Irc::RPL_WELCOME\<close>.
\<close>

definition isWelcome :: "Parser \<Rightarrow> QByteArray \<Rightarrow> bool" where
  "isWelcome P line =
     (case toInt (fst (snd (P line))) of
        None \<Rightarrow> False
      | Some v \<Rightarrow> (word_of_int v :: 32 word) = RPL_WELCOME)"

text \<open>The \<open>messageReceived\<close> signals that carry a message of the Numeric kind.\<close>

definition isNumericSignal :: "Signal \<Rightarrow> bool" where
  "isNumericSignal sig =
     (case sig of Sig_messageReceived (IrcMessage kind pfx params) \<Rightarrow> kind = Numeric
      | _ \<Rightarrow> False)"

text \<open>
  The spec's words for a numeric command token, "a non-negative integer" that "parses
  as an unsigned integer": a non-empty string of decimal digits. It is compared with
  what the source's \<open>toInt\<close> accepts.
\<close>

definition nonNegativeInteger :: "QString \<Rightarrow> bool" where
  "nonNegativeInteger tok = (tok \<noteq> [] \<and> list_all isDigit tok)"

section \<open>The parser\<close>

text \<open>
  Modelled from the spec: the parser class is not among the source files. The spec's
  dispatcher splits a line into the prefix (the text after a leading \<open>:\<close> up to the first
  space, if present), the command token, and the remaining space-separated parameters,
  where a parameter that begins with \<open>:\<close> is the last one and runs to the end of the
  line. The theorems about \<open>processLine\<close> hold for every parser; this one is used where
  a concrete line is evaluated.
\<close>

definition takeToken :: "string \<Rightarrow> string \<times> string" where
  "takeToken s =
     (takeWhile (\<lambda>c. c \<noteq> CHR '' '') s, drop 1 (dropWhile (\<lambda>c. c \<noteq> CHR '' '') s))"

function parseParams :: "string \<Rightarrow> string list" where
  "parseParams [] = []"
| "parseParams (c # cs) =
     (if c = CHR '':'' then [cs]
      else fst (takeToken (c # cs)) # parseParams (snd (takeToken (c # cs))))"
  by pat_completeness auto
termination
proof (relation "measure length")
  show "wf (measure length)" by simp
next
  fix c :: char and cs :: string
  have "length (dropWhile (\<lambda>c. c \<noteq> CHR '' '') (c # cs)) \<le> length (c # cs)"
    by (rule length_dropWhile_le)
  then show "(snd (takeToken (c # cs)), c # cs) \<in> measure length"
    by (auto simp: takeToken_def)
qed

definition parseLine :: Parser where
  "parseLine line =
     (let (pfx, rest) = (if startsWith line '':'' then takeToken (tl line) else ([], line));
          (command, rest') = takeToken rest
      in (pfx, command, parseParams rest'))"

section \<open>Some concrete lines\<close>

lemma welcome_line: "parseLine '':s 001 n :hi'' = (''s'', ''001'', [''n'', ''hi''])"
  by (simp add: parseLine_def startsWith_def takeToken_def)

lemma toInt_001: "toInt ''001'' = Some 1"
  by (simp add: toInt_def trimmed_def isSpace_def isDigit_def digitsValue_def Let_def)

lemma toInt_PING: "toInt ''PING'' = None"
  by (simp add: toInt_def trimmed_def isSpace_def isDigit_def Let_def)

section \<open>Framing: the accumulator after a pass\<close>

lemma readLines_None: "indexOf (buffer s) d = None \<Longrightarrow> readLines P d s = s"
  by (simp add: readLines.simps)

lemma readLines_Some:
  "indexOf (buffer s) d = Some i \<Longrightarrow> d \<noteq> [] \<Longrightarrow>
    readLines P d s = readLines P d (readLines_body P d i s)"
  by (subst readLines.simps) simp

lemma readLines_drained:
  "d \<noteq> [] \<Longrightarrow> indexOf (buffer (readLines P d s)) d = None"
proof (induction P d s rule: readLines.induct)
  case (1 P d s)
  show ?case
  proof (cases "indexOf (buffer s) d")
    case None
    then show ?thesis by (simp add: readLines_None)
  next
    case (Some i)
    with "1.IH" [OF Some "1.prems"] "1.prems" show ?thesis
      by (simp add: readLines_Some)
  qed
qed

lemma readLines_suffix: "suffix (buffer (readLines P d s)) (buffer s)"
proof (induction P d s rule: readLines.induct)
  case (1 P d s)
  show ?case
  proof (cases "indexOf (buffer s) d")
    case None
    then show ?thesis by (simp add: readLines_None)
  next
    case (Some i)
    show ?thesis
    proof (cases "d = []")
      case True
      with Some show ?thesis by (simp add: readLines.simps)
    next
      case False
      from "1.IH" [OF Some False]
      have "suffix (buffer (readLines P d (readLines_body P d i s)))
          (drop (i + length d) (buffer s))" by simp
      then have "suffix (buffer (readLines P d (readLines_body P d i s))) (buffer s)"
        using suffix_drop suffix_order.trans by blast
      with Some False show ?thesis by (simp add: readLines_Some)
    qed
  qed
qed

lemma indexOf_LF_None: "indexOf b [LF] = None \<longleftrightarrow> LF \<notin> set b"
  by (induction b) auto

lemma no_LF_no_CRLF: "LF \<notin> set b \<Longrightarrow> indexOf b CRLF = None"
  by (induction b) (auto simp: CRLF_def dest: set_mono_prefix)

lemma indexOf_empty: "indexOf b [] = Some 0"
  by (cases b) auto

lemma prefix_short: "prefix d (u @ b) \<Longrightarrow> length d \<le> length u \<Longrightarrow> prefix d u"
  by (auto simp: prefix_append)

lemma indexOf_append: "indexOf u d = Some i \<Longrightarrow> indexOf (u @ b) d = Some i"
proof (induction u arbitrary: i)
  case Nil
  then show ?case by (simp add: indexOf_empty split: if_splits)
next
  case (Cons c cs)
  show ?case
  proof (cases "prefix d (c # cs)")
    case True
    then have "prefix d ((c # cs) @ b)" by (rule prefix_prefix)
    with True Cons.prems show ?thesis by simp
  next
    case False
    with Cons.prems obtain j where j: "indexOf cs d = Some j" "i = Suc j" by auto
    from indexOf_bound [OF j(1)] have "length d \<le> length (c # cs)" by simp
    with False have "\<not> prefix d ((c # cs) @ b)" using prefix_short by blast
    with j Cons.IH [OF j(1)] show ?thesis by simp
  qed
qed

lemma indexOf_append_None: "indexOf (u @ b) d = None \<Longrightarrow> indexOf u d = None"
  using indexOf_append by (cases "indexOf u d") fastforce+

lemma indexOf_suffix_None: "indexOf (a @ u) d = None \<Longrightarrow> indexOf u d = None"
  by (induction a) (auto split: if_splits)

lemma indexOf_split:
  "indexOf u d = Some i \<Longrightarrow> u = take i u @ d @ drop (i + length d) u"
proof (induction u arbitrary: i)
  case Nil
  then show ?case by (simp split: if_splits)
next
  case (Cons c cs)
  show ?case
  proof (cases "prefix d (c # cs)")
    case True
    with Cons.prems have "i = 0" by simp
    with True show ?thesis by (auto elim: prefixE)
  next
    case False
    with Cons.prems obtain j where j: "indexOf cs d = Some j" "i = Suc j" by auto
    with Cons.IH [OF j(1)] show ?thesis by simp
  qed
qed

lemma CRLF_nonempty: "CRLF \<noteq> []"
  by (simp add: CRLF_def)

lemma logged_dispatchCommand:
  "logged (dispatchCommand pfx c ps s) = logged s"
  by (simp add: dispatchCommand_def received_def emit_def raw_def split: option.splits)

lemma linesYielded_processLine: "linesYielded (processLine P l s) = linesYielded s @ [l]"
  by (cases "P l"; cases "toInt (fst (snd (P l)))")
    (simp_all add: processLine_def linesYielded_def Let_def received_def emit_def print_def
      logged_dispatchCommand)

lemma linesYielded_readLines_body:
  "linesYielded (readLines_body P d i s)
    = linesYielded s @ filter (\<lambda>l. l \<noteq> []) [trimmed (take i (buffer s))]"
proof -
  have "linesYielded (s\<lparr>buffer := x\<rparr>) = linesYielded s" for x
    by (simp add: linesYielded_def)
  then show ?thesis
    by (simp add: readLines_body_def Let_def linesYielded_processLine)
qed

lemma indexOf_before_first:
  assumes "indexOf u d = Some i" and "d \<noteq> []"
  shows "indexOf (take i u) d = None"
proof (rule ccontr)
  assume "indexOf (take i u) d \<noteq> None"
  then obtain j where j: "indexOf (take i u) d = Some j" by auto
  from indexOf_append [OF j, of "drop i u"] have "indexOf u d = Some j" by simp
  with assms(1) have "j = i" by simp
  moreover from indexOf_bound [OF j] have "j + length d \<le> length (take i u)" .
  ultimately have "length d = 0" by simp
  with assms(2) show False by simp
qed

lemma readLines_decompose:
  assumes "d \<noteq> []"
  shows "\<exists>segs. buffer s = concat (map (\<lambda>g. g @ d) segs) @ buffer (readLines P d s)
    \<and> (\<forall>g\<in>set segs. indexOf g d = None)
    \<and> linesYielded (readLines P d s)
        = linesYielded s @ filter (\<lambda>l. l \<noteq> []) (map trimmed segs)"
  using assms
proof (induction P d s rule: readLines.induct)
  case (1 P d s)
  show ?case
  proof (cases "indexOf (buffer s) d")
    case None
    then have "readLines P d s = s" by (rule readLines_None)
    then show ?thesis by (intro exI [of _ "[]"]) simp
  next
    case (Some i)
    let ?s1 = "readLines_body P d i s"
    from "1.IH" [OF Some "1.prems" "1.prems"] obtain segs where
      a: "buffer ?s1 = concat (map (\<lambda>g. g @ d) segs) @ buffer (readLines P d ?s1)"
      and b: "\<forall>g\<in>set segs. indexOf g d = None"
      and c: "linesYielded (readLines P d ?s1)
          = linesYielded ?s1 @ filter (\<lambda>l. l \<noteq> []) (map trimmed segs)"
      by blast
    have r: "readLines P d s = readLines P d ?s1"
      using Some "1.prems" by (rule readLines_Some)
    from indexOf_split [OF Some] have u: "buffer s = take i (buffer s) @ d @ buffer ?s1"
      by simp
    have n: "indexOf (take i (buffer s)) d = None"
      using Some "1.prems" by (rule indexOf_before_first)
    have "buffer s = concat (map (\<lambda>g. g @ d) (take i (buffer s) # segs))
        @ buffer (readLines P d s)"
      using u a r by simp
    moreover have "\<forall>g\<in>set (take i (buffer s) # segs). indexOf g d = None"
      using n b by simp
    moreover have "linesYielded (readLines P d s)
        = linesYielded s @ filter (\<lambda>l. l \<noteq> []) (map trimmed (take i (buffer s) # segs))"
      using c r by (simp add: linesYielded_readLines_body)
    ultimately show ?thesis by blast
  qed
qed

lemma after_last_LF:
  assumes "LF \<notin> set r" and "pre = [] \<or> last pre = LF"
  shows "rev (takeWhile (\<lambda>c. c \<noteq> LF) (rev (pre @ r))) = r"
proof -
  from assms(2) have "takeWhile (\<lambda>c. c \<noteq> LF) (rev pre) = []"
    by (cases pre rule: rev_cases) auto
  moreover have "takeWhile (\<lambda>c. c \<noteq> LF) (rev r @ rev pre)
      = rev r @ takeWhile (\<lambda>c. c \<noteq> LF) (rev pre)"
    by (rule takeWhile_append2) (use assms(1) in auto)
  ultimately show ?thesis by simp
qed

lemma concat_delimited_last:
  "d \<noteq> [] \<Longrightarrow> segs \<noteq> [] \<Longrightarrow> last (concat (map (\<lambda>g. g @ d) segs)) = last d"
  by (induction segs rule: rev_induct) auto

text \<open>
  C9. A framing pass (\<open>_q_readData\<close> on newly received bytes) returns whenever the session
  has a socket, and it takes the accumulator followed by the new bytes apart exactly:
  first come the spans that the CRLF pass extracted, each free of CRLF and followed by
  CRLF, then the spans that the bare-LF pass extracted, each free of LF and followed by
  LF, with no CRLF left in what the CRLF pass handed on; the lines yielded by the pass
  are these spans trimmed, in this order, the empty ones left out; and what remains
  buffered is the rest, which is exactly the bytes after the last LF. So every terminated
  line has been extracted and the accumulator holds no complete terminated line: neither
  delimiter occurs in it, indeed no LF byte at all, and only the partial trailing
  fragment (possibly empty) remains.
\<close>

theorem accumulator_drained_after_pass:
  assumes "socket s = Some k"
  shows "\<exists>s' segsCRLF segsLF. q_readData P bytes s = Some s'
    \<and> buffer s @ bytes = concat (map (\<lambda>g. g @ CRLF) segsCRLF)
        @ concat (map (\<lambda>g. g @ [LF]) segsLF) @ buffer s'
    \<and> (\<forall>g\<in>set segsCRLF. indexOf g CRLF = None)
    \<and> (\<forall>g\<in>set segsLF. LF \<notin> set g)
    \<and> indexOf (concat (map (\<lambda>g. g @ [LF]) segsLF) @ buffer s') CRLF = None
    \<and> linesYielded s'
        = linesYielded s @ filter (\<lambda>l. l \<noteq> []) (map trimmed (segsCRLF @ segsLF))
    \<and> buffer s' = rev (takeWhile (\<lambda>c. c \<noteq> LF) (rev (buffer s @ bytes)))
    \<and> indexOf (buffer s') CRLF = None \<and> indexOf (buffer s') [LF] = None
    \<and> LF \<notin> set (buffer s')
    \<and> suffix (buffer s') (buffer s @ bytes)"
proof -
  let ?s0 = "s\<lparr>buffer := buffer s @ bytes\<rparr>"
  let ?s1 = "readLines P CRLF ?s0"
  let ?s2 = "readLines P [LF] ?s1"
  have r: "q_readData P bytes s = Some ?s2"
    using assms by (simp add: q_readData_def)
  from readLines_decompose [OF CRLF_nonempty, of ?s0 P] obtain A where
    a1: "buffer s @ bytes = concat (map (\<lambda>g. g @ CRLF) A) @ buffer ?s1"
    and a2: "\<forall>g\<in>set A. indexOf g CRLF = None"
    and a3: "linesYielded ?s1 = linesYielded s @ filter (\<lambda>l. l \<noteq> []) (map trimmed A)"
    by (auto simp: linesYielded_def)
  have ne: "[LF] \<noteq> []" by simp
  from readLines_decompose [OF ne, of ?s1 P] obtain B where
    b1: "buffer ?s1 = concat (map (\<lambda>g. g @ [LF]) B) @ buffer ?s2"
    and b2: "\<forall>g\<in>set B. indexOf g [LF] = None"
    and b3: "linesYielded ?s2 = linesYielded ?s1 @ filter (\<lambda>l. l \<noteq> []) (map trimmed B)"
    by blast
  have c1: "buffer s @ bytes = concat (map (\<lambda>g. g @ CRLF) A)
      @ concat (map (\<lambda>g. g @ [LF]) B) @ buffer ?s2"
    using a1 b1 by simp
  from b2 have c2: "\<forall>g\<in>set B. LF \<notin> set g" by (simp add: indexOf_LF_None)
  have "indexOf (buffer ?s1) CRLF = None"
    using CRLF_nonempty by (rule readLines_drained)
  with b1 have c3: "indexOf (concat (map (\<lambda>g. g @ [LF]) B) @ buffer ?s2) CRLF = None"
    by simp
  from a3 b3 have c4: "linesYielded ?s2
      = linesYielded s @ filter (\<lambda>l. l \<noteq> []) (map trimmed (A @ B))"
    by simp
  have lf: "indexOf (buffer ?s2) [LF] = None"
    using ne by (rule readLines_drained)
  then have no: "LF \<notin> set (buffer ?s2)"
    by (simp add: indexOf_LF_None)
  let ?pre = "concat (map (\<lambda>g. g @ CRLF) A) @ concat (map (\<lambda>g. g @ [LF]) B)"
  have "?pre = [] \<or> last ?pre = LF"
  proof (cases "B = []")
    case False
    with concat_delimited_last [OF ne False] show ?thesis by simp
  next
    case True
    show ?thesis
    proof (cases "A = []")
      case True
      with \<open>B = []\<close> show ?thesis by simp
    next
      case False
      with concat_delimited_last [OF CRLF_nonempty False] \<open>B = []\<close> show ?thesis
        by (simp add: CRLF_def)
    qed
  qed
  with no have "rev (takeWhile (\<lambda>c. c \<noteq> LF) (rev (?pre @ buffer ?s2))) = buffer ?s2"
    by (rule after_last_LF)
  with c1 have c5: "buffer ?s2 = rev (takeWhile (\<lambda>c. c \<noteq> LF) (rev (buffer s @ bytes)))"
    by simp
  from c1 have c6: "suffix (buffer ?s2) (buffer s @ bytes)"
    by (metis append.assoc suffix_def)
  from r c1 a2 c2 c3 c4 c5 lf no no_LF_no_CRLF [OF no] c6 show ?thesis by blast
qed

theorem accumulator_drained_after_pass_witness:
  "socket IrcSession_new = Some QTcpSocket_new
   \<and> (\<exists>s' segsCRLF segsLF.
        q_readData parseLine
            (''PING :abc'' @ CRLF @ ''JOIN #c'' @ [LF] @ ''par'')
            IrcSession_new = Some s'
        \<and> buffer IrcSession_new @ (''PING :abc'' @ CRLF @ ''JOIN #c'' @ [LF] @ ''par'')
            = concat (map (\<lambda>g. g @ CRLF) segsCRLF)
              @ concat (map (\<lambda>g. g @ [LF]) segsLF) @ buffer s'
        \<and> (\<forall>g\<in>set segsCRLF. indexOf g CRLF = None)
        \<and> (\<forall>g\<in>set segsLF. LF \<notin> set g)
        \<and> indexOf (concat (map (\<lambda>g. g @ [LF]) segsLF) @ buffer s') CRLF = None
        \<and> linesYielded s' = linesYielded IrcSession_new
            @ filter (\<lambda>l. l \<noteq> []) (map trimmed (segsCRLF @ segsLF))
        \<and> buffer s' = ''par''
        \<and> LF \<notin> set (buffer s'))
   \<and> map_option linesYielded (q_readData parseLine
            (''PING :abc'' @ CRLF @ ''JOIN #c'' @ [LF] @ ''par'')
            IrcSession_new)
       = Some [''PING :abc'', ''JOIN #c'']
   \<and> map_option buffer (q_readData parseLine
            (''PING :abc'' @ CRLF @ ''JOIN #c'' @ [LF] @ ''par'')
            IrcSession_new) = Some ''par''"
proof -
  have h: "socket IrcSession_new = Some QTcpSocket_new"
    and b: "buffer IrcSession_new = []"
    by (simp_all add: IrcSession_new_def IrcSessionPrivate_new_def setSocket_def)
  have t: "rev (takeWhile (\<lambda>c. c \<noteq> LF) (rev (buffer IrcSession_new
        @ (''PING :abc'' @ CRLF @ ''JOIN #c'' @ [LF] @ ''par'')))) = ''par''"
    by (simp add: b CRLF_def CR_def LF_def)
  have e: "map_option linesYielded (q_readData parseLine
            (''PING :abc'' @ CRLF @ ''JOIN #c'' @ [LF] @ ''par'')
            IrcSession_new)
        = Some [''PING :abc'', ''JOIN #c'']"
      "map_option buffer (q_readData parseLine
            (''PING :abc'' @ CRLF @ ''JOIN #c'' @ [LF] @ ''par'')
            IrcSession_new) = Some ''par''"
    by (simp_all add: q_readData_def IrcSession_new_def IrcSessionPrivate_new_def setSocket_def
      QTcpSocket_new_def readLines.simps readLines_body_def CRLF_def LF_def CR_def
      trimmed_def isSpace_def Let_def processLine_def parseLine_def startsWith_def
      takeToken_def toInt_def isDigit_def dispatchCommand_def raw_def received_def emit_def
      print_def linesYielded_def list_value_def)
  from accumulator_drained_after_pass [OF h, of parseLine "(''PING :abc'' @ CRLF @ ''JOIN #c'' @ [LF] @ ''par'')"]
  obtain s' segsCRLF segsLF where
    "q_readData parseLine
            (''PING :abc'' @ CRLF @ ''JOIN #c'' @ [LF] @ ''par'')
            IrcSession_new = Some s'"
    "buffer IrcSession_new @ (''PING :abc'' @ CRLF @ ''JOIN #c'' @ [LF] @ ''par'')
      = concat (map (\<lambda>g. g @ CRLF) segsCRLF)
        @ concat (map (\<lambda>g. g @ [LF]) segsLF) @ buffer s'"
    "\<forall>g\<in>set segsCRLF. indexOf g CRLF = None"
    "\<forall>g\<in>set segsLF. LF \<notin> set g"
    "indexOf (concat (map (\<lambda>g. g @ [LF]) segsLF) @ buffer s') CRLF = None"
    "linesYielded s' = linesYielded IrcSession_new
      @ filter (\<lambda>l. l \<noteq> []) (map trimmed (segsCRLF @ segsLF))"
    "buffer s' = rev (takeWhile (\<lambda>c. c \<noteq> LF) (rev (buffer IrcSession_new
        @ (''PING :abc'' @ CRLF @ ''JOIN #c'' @ [LF] @ ''par''))))"
    "LF \<notin> set (buffer s')"
    by blast
  with t have "\<exists>s' segsCRLF segsLF.
        q_readData parseLine
            (''PING :abc'' @ CRLF @ ''JOIN #c'' @ [LF] @ ''par'')
            IrcSession_new = Some s'
        \<and> buffer IrcSession_new @ (''PING :abc'' @ CRLF @ ''JOIN #c'' @ [LF] @ ''par'')
            = concat (map (\<lambda>g. g @ CRLF) segsCRLF)
              @ concat (map (\<lambda>g. g @ [LF]) segsLF) @ buffer s'
        \<and> (\<forall>g\<in>set segsCRLF. indexOf g CRLF = None)
        \<and> (\<forall>g\<in>set segsLF. LF \<notin> set g)
        \<and> indexOf (concat (map (\<lambda>g. g @ [LF]) segsLF) @ buffer s') CRLF = None
        \<and> linesYielded s' = linesYielded IrcSession_new
            @ filter (\<lambda>l. l \<noteq> []) (map trimmed (segsCRLF @ segsLF))
        \<and> buffer s' = ''par''
        \<and> LF \<notin> set (buffer s')"
    by (intro exI [of _ s'] exI [of _ segsCRLF] exI [of _ segsLF]) simp
  with h e show ?thesis by blast
qed

section \<open>Framing: feeding a stream in chunks\<close>

lemma raw_buffer_update: "raw m (s\<lparr>buffer := x\<rparr>) = (raw m s)\<lparr>buffer := x\<rparr>"
  by (simp add: raw_def split: option.splits)

lemma received_buffer_update:
  "received kind pfx ps (s\<lparr>buffer := x\<rparr>) = (received kind pfx ps s)\<lparr>buffer := x\<rparr>"
  by (simp add: received_def emit_def)

lemma dispatchCommand_buffer_update:
  "dispatchCommand pfx c ps (s\<lparr>buffer := x\<rparr>) = (dispatchCommand pfx c ps s)\<lparr>buffer := x\<rparr>"
  unfolding dispatchCommand_def by (simp only: raw_buffer_update received_buffer_update if_distrib [of "\<lambda>t. t\<lparr>buffer := x\<rparr>"])

lemma processLine_buffer_update:
  "processLine P l (s\<lparr>buffer := x\<rparr>) = (processLine P l s)\<lparr>buffer := x\<rparr>"
proof -
  have p: "print e (s\<lparr>buffer := x\<rparr>) = (print e s)\<lparr>buffer := x\<rparr>" for e
    by (simp add: print_def)
  have e: "emit g (t\<lparr>buffer := x\<rparr>) = (emit g t)\<lparr>buffer := x\<rparr>" for g t
    by (simp add: emit_def)
  show ?thesis
    by (cases "P l"; cases "toInt (fst (snd (P l)))")
      (simp_all add: processLine_def Let_def p e dispatchCommand_buffer_update
        received_buffer_update)
qed

lemma socket_raw: "socket s \<noteq> None \<Longrightarrow> socket (raw m s) \<noteq> None"
  by (cases "socket s") (simp_all add: raw_def)

lemma socket_received [simp]: "socket (received kind pfx ps s) = socket s"
  by (simp add: received_def emit_def)

lemma socket_dispatchCommand:
  "socket s \<noteq> None \<Longrightarrow> socket (dispatchCommand pfx c ps s) \<noteq> None"
  unfolding dispatchCommand_def by (simp add: socket_raw del: not_None_eq)

lemma socket_processLine: "socket s \<noteq> None \<Longrightarrow> socket (processLine P l s) \<noteq> None"
proof -
  assume a: "socket s \<noteq> None"
  then have "socket (print (DebugLine l) s) \<noteq> None" by (simp add: print_def)
  then have "socket (dispatchCommand pfx c ps (print (DebugLine l) s)) \<noteq> None" for pfx c ps
    by (rule socket_dispatchCommand)
  with a show ?thesis
    by (cases "P l"; cases "toInt (fst (snd (P l)))")
      (simp_all add: processLine_def Let_def emit_def print_def del: not_None_eq)
qed

lemma socket_readLines_body: "socket s \<noteq> None \<Longrightarrow> socket (readLines_body P d i s) \<noteq> None"
  unfolding readLines_body_def Let_def
  by (simp add: socket_processLine del: not_None_eq)

lemma socket_readLines: "socket s \<noteq> None \<Longrightarrow> socket (readLines P d s) \<noteq> None"
proof (induction P d s rule: readLines.induct)
  case (1 P d s)
  show ?case
  proof (cases "indexOf (buffer s) d")
    case None
    with "1.prems" show ?thesis by (simp add: readLines_None)
  next
    case (Some i)
    show ?thesis
    proof (cases "d = []")
      case True
      with Some "1.prems" show ?thesis by (simp add: readLines.simps)
    next
      case False
      from "1.IH" [OF Some False socket_readLines_body [OF "1.prems"]] Some False
      show ?thesis by (simp add: readLines_Some)
    qed
  qed
qed

lemma readLines_body_append:
  assumes "i + length d \<le> length (buffer s)"
  shows "readLines_body P d i (s\<lparr>buffer := buffer s @ b\<rparr>) =
    (readLines_body P d i s)\<lparr>buffer := buffer (readLines_body P d i s) @ b\<rparr>"
  using assms by (simp add: readLines_body_def Let_def processLine_buffer_update)

lemma readLines_append:
  "d \<noteq> [] \<Longrightarrow>
    readLines P d ((readLines P d s)\<lparr>buffer := buffer (readLines P d s) @ b\<rparr>) =
    readLines P d (s\<lparr>buffer := buffer s @ b\<rparr>)"
proof (induction P d s rule: readLines.induct)
  case (1 P d s)
  show ?case
  proof (cases "indexOf (buffer s) d")
    case None
    then show ?thesis by (simp add: readLines_None)
  next
    case (Some i)
    let ?s' = "readLines_body P d i s"
    from indexOf_bound [OF Some] have le: "i + length d \<le> length (buffer s)" .
    have "indexOf (buffer (s\<lparr>buffer := buffer s @ b\<rparr>)) d = Some i"
      using indexOf_append [OF Some] by simp
    then have "readLines P d (s\<lparr>buffer := buffer s @ b\<rparr>) =
        readLines P d (readLines_body P d i (s\<lparr>buffer := buffer s @ b\<rparr>))"
      using "1.prems" by (rule readLines_Some)
    also have "\<dots> = readLines P d (?s'\<lparr>buffer := buffer ?s' @ b\<rparr>)"
      by (simp only: readLines_body_append [OF le])
    also have "\<dots> = readLines P d
        ((readLines P d ?s')\<lparr>buffer := buffer (readLines P d ?s') @ b\<rparr>)"
      using "1.IH" [OF Some "1.prems" "1.prems"] by simp
    finally show ?thesis
      using Some "1.prems" by (simp add: readLines_Some)
  qed
qed


lemma indexOf_CRLF_mid: "indexOf (x @ CRLF @ y) CRLF \<noteq> None"
  by (induction x) (auto simp: CRLF_def)

lemma tolerant_after_CRLF:
  "noCRLFAfterBareLF p (pre @ CRLF @ rest) \<Longrightarrow> noCRLFAfterBareLF False rest"
proof (induction pre arbitrary: p)
  case Nil
  then show ?case by (simp add: CRLF_def CR_def LF_def)
next
  case (Cons c cs)
  show ?case
  proof (cases "c = LF \<and> \<not> p")
    case True
    with Cons.prems have "indexOf (cs @ CRLF @ rest) CRLF = None" by simp
    with indexOf_CRLF_mid show ?thesis by blast
  next
    case False
    with Cons.prems have "noCRLFAfterBareLF (c = CR) (cs @ CRLF @ rest)" by auto
    then show ?thesis by (rule Cons.IH)
  qed
qed

lemma no_CRLF_tolerant: "indexOf x CRLF = None \<Longrightarrow> noCRLFAfterBareLF p x"
  by (induction x arbitrary: p) (auto split: if_splits)

lemma bare_LF_no_CRLF:
  "noCRLFAfterBareLF p (x @ y) \<Longrightarrow> indexOf x CRLF = None \<Longrightarrow> (p \<longrightarrow> \<not> prefix [LF] x)
    \<Longrightarrow> LF \<in> set x \<Longrightarrow> indexOf (x @ y) CRLF = None"
proof (induction x arbitrary: p)
  case Nil
  then show ?case by simp
next
  case (Cons c cs)
  show ?case
  proof (cases "c = LF")
    case True
    with Cons.prems(3) have "\<not> p" by simp
    with True Cons.prems(1) have "indexOf (cs @ y) CRLF = None" by simp
    with True show ?thesis by (simp add: CRLF_def CR_def LF_def)
  next
    case False
    with Cons.prems(1) have t: "noCRLFAfterBareLF (c = CR) (cs @ y)" by simp
    from Cons.prems(2) have np: "\<not> prefix CRLF (c # cs)" and n: "indexOf cs CRLF = None"
      by (auto split: if_splits)
    from np have h: "c = CR \<longrightarrow> \<not> prefix [LF] cs" by (simp add: CRLF_def)
    from False Cons.prems(4) have m: "LF \<in> set cs" by simp
    from Cons.IH [OF t n h m] have r: "indexOf (cs @ y) CRLF = None" .
    from m obtain e es where cs: "cs = e # es" by (cases cs) auto
    with h have "c = CR \<longrightarrow> e \<noteq> LF" by auto
    with cs have "\<not> prefix CRLF (c # cs @ y)" by (auto simp: CRLF_def)
    with r show ?thesis by simp
  qed
qed

lemma tolerant_readLines_CRLF:
  "d = CRLF \<Longrightarrow> noCRLFAfterBareLF False (buffer s @ w)
    \<Longrightarrow> noCRLFAfterBareLF False (buffer (readLines P d s) @ w)"
proof (induction P d s rule: readLines.induct)
  case (1 P d s)
  show ?case
  proof (cases "indexOf (buffer s) d")
    case None
    with "1.prems" show ?thesis by (simp add: readLines_None)
  next
    case (Some i)
    from "1.prems"(1) have ne: "d \<noteq> []" by (simp add: CRLF_def)
    from indexOf_split [OF Some] "1.prems"(1)
    have "buffer s @ w = take i (buffer s) @ CRLF @ (drop (i + length d) (buffer s) @ w)"
      by (metis append.assoc)
    with "1.prems"(2)
    have "noCRLFAfterBareLF False (take i (buffer s) @ CRLF @ (drop (i + length d) (buffer s) @ w))"
      by simp
    then have "noCRLFAfterBareLF False (drop (i + length d) (buffer s) @ w)"
      by (rule tolerant_after_CRLF)
    then have "noCRLFAfterBareLF False (buffer (readLines_body P d i s) @ w)" by simp
    from "1.IH" [OF Some ne "1.prems"(1) this] Some ne show ?thesis
      by (simp add: readLines_Some)
  qed
qed

lemma suffix_no_delimiter:
  assumes "suffix r u" and "indexOf (u @ w) d = None"
  shows "indexOf (r @ w) d = None"
proof -
  from assms(1) obtain pre where "u = pre @ r" by (auto simp: suffix_def)
  with assms(2) have "indexOf (pre @ (r @ w)) d = None" by simp
  then show ?thesis by (rule indexOf_suffix_None)
qed

lemma tolerant_readLines_LF:
  assumes "indexOf (buffer s) CRLF = None" and "noCRLFAfterBareLF False (buffer s @ w)"
  shows "noCRLFAfterBareLF False (buffer (readLines P [LF] s) @ w)"
proof (cases "LF \<in> set (buffer s)")
  case False
  then have "readLines P [LF] s = s" by (simp add: readLines_None indexOf_LF_None)
  with assms(2) show ?thesis by simp
next
  case True
  from bare_LF_no_CRLF [OF assms(2) assms(1) _ True]
  have "indexOf (buffer s @ w) CRLF = None" by simp
  with readLines_suffix have "indexOf (buffer (readLines P [LF] s) @ w) CRLF = None"
    by (rule suffix_no_delimiter)
  then show ?thesis by (rule no_CRLF_tolerant)
qed


lemma q_readData_Some:
  "socket s \<noteq> None \<Longrightarrow>
    q_readData P bytes s =
      Some (readLines P [LF] (readLines P CRLF (s\<lparr>buffer := buffer s @ bytes\<rparr>)))"
  by (cases "socket s") (simp_all add: q_readData_def)

lemma two_chunks_strict:
  assumes "socket s \<noteq> None"
    and "LF \<notin> set (buffer (readLines P CRLF (s\<lparr>buffer := buffer s @ a\<rparr>)))"
  shows "q_readData P b (readLines P [LF] (readLines P CRLF (s\<lparr>buffer := buffer s @ a\<rparr>)))
    = q_readData P (a @ b) s"
proof -
  let ?s1 = "readLines P CRLF (s\<lparr>buffer := buffer s @ a\<rparr>)"
  from assms(2) have t: "readLines P [LF] ?s1 = ?s1"
    by (simp add: readLines_None indexOf_LF_None)
  from assms(1) have "socket (s\<lparr>buffer := buffer s @ a\<rparr>) \<noteq> None" by simp
  then have k: "socket ?s1 \<noteq> None" by (rule socket_readLines)
  have "readLines P CRLF (?s1\<lparr>buffer := buffer ?s1 @ b\<rparr>) =
      readLines P CRLF (s\<lparr>buffer := buffer s @ a @ b\<rparr>)"
    using readLines_append [OF CRLF_nonempty, of P "s\<lparr>buffer := buffer s @ a\<rparr>" b] by simp
  with t k assms(1) show ?thesis by (simp add: q_readData_Some)
qed

lemma two_chunks_lenient:
  assumes "socket s \<noteq> None"
    and "indexOf (buffer (readLines P CRLF (s\<lparr>buffer := buffer s @ a\<rparr>)) @ b) CRLF = None"
  shows "q_readData P b (readLines P [LF] (readLines P CRLF (s\<lparr>buffer := buffer s @ a\<rparr>)))
    = q_readData P (a @ b) s"
proof -
  let ?s1 = "readLines P CRLF (s\<lparr>buffer := buffer s @ a\<rparr>)"
  let ?t = "readLines P [LF] ?s1"
  from assms(1) have "socket (s\<lparr>buffer := buffer s @ a\<rparr>) \<noteq> None" by simp
  then have "socket ?s1 \<noteq> None" by (rule socket_readLines)
  then have k: "socket ?t \<noteq> None" by (rule socket_readLines)
  have "indexOf (buffer ?t @ b) CRLF = None"
    using readLines_suffix assms(2) by (rule suffix_no_delimiter)
  then have "readLines P CRLF (?t\<lparr>buffer := buffer ?t @ b\<rparr>) = ?t\<lparr>buffer := buffer ?t @ b\<rparr>"
    by (simp add: readLines_None)
  then have l: "q_readData P b ?t = Some (readLines P [LF] (?t\<lparr>buffer := buffer ?t @ b\<rparr>))"
    using k by (simp add: q_readData_Some)
  have l': "readLines P [LF] (?t\<lparr>buffer := buffer ?t @ b\<rparr>) =
      readLines P [LF] (?s1\<lparr>buffer := buffer ?s1 @ b\<rparr>)"
    by (rule readLines_append) simp
  have "readLines P CRLF (s\<lparr>buffer := buffer s @ a @ b\<rparr>) =
      readLines P CRLF (?s1\<lparr>buffer := buffer ?s1 @ b\<rparr>)"
    using readLines_append [OF CRLF_nonempty, of P "s\<lparr>buffer := buffer s @ a\<rparr>" b] by simp
  also have "\<dots> = ?s1\<lparr>buffer := buffer ?s1 @ b\<rparr>"
    using assms(2) by (simp add: readLines_None)
  finally have "q_readData P (a @ b) s = Some (readLines P [LF] (?s1\<lparr>buffer := buffer ?s1 @ b\<rparr>))"
    using assms(1) by (simp add: q_readData_Some)
  with l l' show ?thesis by simp
qed

lemma two_chunks:
  assumes "socket s \<noteq> None" and "noCRLFAfterBareLF False (buffer s @ a @ b)"
  shows "q_readData P b (readLines P [LF] (readLines P CRLF (s\<lparr>buffer := buffer s @ a\<rparr>)))
    = q_readData P (a @ b) s"
proof -
  let ?s1 = "readLines P CRLF (s\<lparr>buffer := buffer s @ a\<rparr>)"
  from assms(2) have "noCRLFAfterBareLF False (buffer (s\<lparr>buffer := buffer s @ a\<rparr>) @ b)"
    by simp
  with refl have t: "noCRLFAfterBareLF False (buffer ?s1 @ b)"
    by (rule tolerant_readLines_CRLF)
  have n: "indexOf (buffer ?s1) CRLF = None"
    using CRLF_nonempty by (rule readLines_drained)
  show ?thesis
  proof (cases "LF \<in> set (buffer ?s1)")
    case True
    from bare_LF_no_CRLF [OF t n _ True] have "indexOf (buffer ?s1 @ b) CRLF = None" by simp
    with assms(1) show ?thesis by (rule two_chunks_lenient)
  next
    case False
    with assms(1) show ?thesis by (rule two_chunks_strict)
  qed
qed

lemma tolerant_after_pass:
  assumes "noCRLFAfterBareLF False (buffer s @ c @ w)"
  shows "noCRLFAfterBareLF False
    (buffer (readLines P [LF] (readLines P CRLF (s\<lparr>buffer := buffer s @ c\<rparr>))) @ w)"
proof -
  let ?s1 = "readLines P CRLF (s\<lparr>buffer := buffer s @ c\<rparr>)"
  from assms have "noCRLFAfterBareLF False (buffer (s\<lparr>buffer := buffer s @ c\<rparr>) @ w)"
    by simp
  with refl have t: "noCRLFAfterBareLF False (buffer ?s1 @ w)"
    by (rule tolerant_readLines_CRLF)
  have n: "indexOf (buffer ?s1) CRLF = None"
    using CRLF_nonempty by (rule readLines_drained)
  from n t show ?thesis by (rule tolerant_readLines_LF)
qed

text \<open>
  C4 as stated fails. The stream \<open>a\nb\r\n\<close> fed in one call yields the single line
  \<open>a\nb\<close> (the CRLF pass runs first and takes everything before the CRLF), while fed as
  \<open>a\n\<close> and then \<open>b\r\n\<close> it yields the two lines \<open>a\<close> and \<open>b\<close> (the bare-LF pass of
  the first call has already taken \<open>a\<close>).
\<close>

theorem framing_chunk_invariant_counterexample:
  "map_option linesYielded
     (feed parseLine [[CHR ''a'', LF], [CHR ''b'', CR, LF]] IrcSession_new)
     = Some [''a'', ''b'']
   \<and> map_option linesYielded
     (q_readData parseLine (concat [[CHR ''a'', LF], [CHR ''b'', CR, LF]]) IrcSession_new)
     = Some [[CHR ''a'', LF, CHR ''b'']]"
  by (simp add: q_readData_def IrcSession_new_def IrcSessionPrivate_new_def setSocket_def
      QTcpSocket_new_def readLines.simps readLines_body_def CRLF_def LF_def CR_def
      trimmed_def isSpace_def Let_def processLine_def parseLine_def startsWith_def
      takeToken_def toInt_def isDigit_def dispatchCommand_def print_def linesYielded_def)

text \<open>
  C4, amended. For a session with a socket whose accumulator holds no LF (as at the
  start and after every framing pass), and a stream in which no CRLF comes after a bare
  LF: however the stream is split into chunks, feeding the chunks one \<open>_q_readData\<close> call
  each returns, and it ends in the very state that feeding the whole stream in one call
  ends in; in particular the lines yielded are the same, in the same order.
\<close>

theorem framing_chunk_invariant:
  assumes "socket s = Some k" and "LF \<notin> set (buffer s)"
    and "noCRLFAfterBareLF False (buffer s @ concat chunks)"
  shows "\<exists>s'. feed P chunks s = Some s' \<and> q_readData P (concat chunks) s = Some s'"
  using assms
proof (induction chunks arbitrary: s k)
  case Nil
  from Nil.prems(2) have "readLines P CRLF s = s" "readLines P [LF] s = s"
    by (simp_all add: readLines_None indexOf_LF_None no_LF_no_CRLF)
  with Nil.prems(1) show ?case by (simp add: q_readData_def)
next
  case (Cons c cs)
  let ?t = "readLines P [LF] (readLines P CRLF (s\<lparr>buffer := buffer s @ c\<rparr>))"
  from Cons.prems(1) have so: "socket s \<noteq> None" by simp
  then have r: "q_readData P c s = Some ?t" by (rule q_readData_Some)
  from so have "socket (s\<lparr>buffer := buffer s @ c\<rparr>) \<noteq> None" by simp
  then have "socket (readLines P CRLF (s\<lparr>buffer := buffer s @ c\<rparr>)) \<noteq> None"
    by (rule socket_readLines)
  then have "socket ?t \<noteq> None" by (rule socket_readLines)
  then obtain k' where k': "socket ?t = Some k'" by auto
  have "indexOf (buffer ?t) [LF] = None" by (rule readLines_drained) simp
  then have lf: "LF \<notin> set (buffer ?t)" by (simp add: indexOf_LF_None)
  from Cons.prems(3) have tl: "noCRLFAfterBareLF False (buffer s @ c @ concat cs)" by simp
  then have "noCRLFAfterBareLF False (buffer ?t @ concat cs)" by (rule tolerant_after_pass)
  from Cons.IH [OF k' lf this] obtain s' where
    s': "feed P cs ?t = Some s'" "q_readData P (concat cs) ?t = Some s'" by blast
  from two_chunks [OF so tl] s'(2) have "q_readData P (c @ concat cs) s = Some s'" by simp
  with r s'(1) show ?case by simp
qed

theorem framing_chunk_invariant_witness:
  "socket IrcSession_new = Some QTcpSocket_new
   \<and> LF \<notin> set (buffer IrcSession_new)
   \<and> noCRLFAfterBareLF False
       (buffer IrcSession_new @ concat [[CHR ''x'', CR], [LF, CHR ''y'', LF, CHR ''z'']])
   \<and> (\<exists>s'. feed parseLine [[CHR ''x'', CR], [LF, CHR ''y'', LF, CHR ''z'']] IrcSession_new
          = Some s'
        \<and> q_readData parseLine (concat [[CHR ''x'', CR], [LF, CHR ''y'', LF, CHR ''z'']])
            IrcSession_new = Some s'
        \<and> linesYielded s' = [''x'', ''y''])"
proof -
  have h1: "socket IrcSession_new = Some QTcpSocket_new"
    and h2: "LF \<notin> set (buffer IrcSession_new)"
    and h3: "noCRLFAfterBareLF False
       (buffer IrcSession_new @ concat [[CHR ''x'', CR], [LF, CHR ''y'', LF, CHR ''z'']])"
    by (simp_all add: IrcSession_new_def IrcSessionPrivate_new_def setSocket_def
        CRLF_def LF_def CR_def)
  have e: "map_option linesYielded
      (q_readData parseLine (concat [[CHR ''x'', CR], [LF, CHR ''y'', LF, CHR ''z'']])
        IrcSession_new) = Some [''x'', ''y'']"
    by (simp add: q_readData_def IrcSession_new_def IrcSessionPrivate_new_def setSocket_def
      QTcpSocket_new_def readLines.simps readLines_body_def CRLF_def LF_def CR_def
      trimmed_def isSpace_def Let_def processLine_def parseLine_def startsWith_def
      takeToken_def toInt_def isDigit_def dispatchCommand_def print_def linesYielded_def)
  from framing_chunk_invariant [OF h1 h2 h3, of parseLine] e h1 h2 h3
  show ?thesis by auto
qed

section \<open>The main buffer\<close>

lemma mainBuffer_dispatchCommand [simp]:
  "mainBuffer (dispatchCommand pfx c ps s) = mainBuffer s"
  by (simp add: dispatchCommand_def received_def emit_def raw_def split: option.splits)

lemma mainBuffer_processLine [simp]: "mainBuffer (processLine P l s) = mainBuffer s"
  by (simp add: processLine_def received_def emit_def print_def Let_def
      split: prod.splits option.splits)

lemma mainBuffer_readLines_body [simp]: "mainBuffer (readLines_body P d i s) = mainBuffer s"
  by (simp add: readLines_body_def Let_def)

lemma mainBuffer_readLines [simp]: "mainBuffer (readLines P d s) = mainBuffer s"
proof (induction P d s rule: readLines.induct)
  case (1 P d s)
  show ?case
  proof (cases "indexOf (buffer s) d")
    case None
    then show ?thesis by (simp add: readLines_None)
  next
    case (Some i)
    show ?thesis
    proof (cases "d = []")
      case True
      with Some show ?thesis by (simp add: readLines.simps)
    next
      case False
      with "1.IH" [OF Some False] Some show ?thesis by (simp add: readLines_Some)
    qed
  qed
qed

lemma mainBuffer_q_readData: "q_readData P bytes s = Some s' \<Longrightarrow> mainBuffer s' = mainBuffer s"
  by (auto simp: q_readData_def split: option.splits)

lemma mainBuffer_step:
  "step P i s = Some s' \<Longrightarrow> (\<forall>pw. i \<noteq> Socket_connected pw) \<Longrightarrow> mainBuffer s' = mainBuffer s"
  by (cases i)
    (auto simp: setHost_def setPort_def setUserName_def setNickName_def setRealName_def
      setSocket_def sendMessage_def raw_def addBuffer_def createBuffer_def removeBuffer_def IrcSession_open_def q_reconnect_def
      IrcSession_close_def q_disconnected_def q_error_def q_state_def print_def emit_def
      Let_def mainBuffer_q_readData split: option.splits if_splits)

lemma mainBuffer_run:
  "run P inputs s = Some s' \<Longrightarrow> (\<forall>pw. Socket_connected pw \<notin> set inputs)
    \<Longrightarrow> mainBuffer s' = mainBuffer s"
proof (induction inputs arbitrary: s)
  case Nil
  then show ?case by simp
next
  case (Cons i inputs)
  from Cons.prems(1) obtain t where t: "step P i s = Some t" "run P inputs t = Some s'"
    by (auto split: option.splits)
  from Cons.prems(2) have "\<forall>pw. i \<noteq> Socket_connected pw" by auto
  with t(1) have "mainBuffer t = mainBuffer s" by (rule mainBuffer_step)
  moreover from Cons.prems(2) have "\<forall>pw. Socket_connected pw \<notin> set inputs" by auto
  with t(2) have "mainBuffer s' = mainBuffer t" by (rule Cons.IH)
  ultimately show ?case by simp
qed

text \<open>What \<open>_q_connected\<close> returns when the session has a socket.\<close>

lemma q_connected_result:
  assumes "socket s = Some k"
  shows "q_connected pw s =
    Some (s\<lparr>socket := Some (k\<lparr>written := written k
              @ (if pw = [] then [] else [''PASS '' @ pw @ CRLF])
              @ [''NICK '' @ nickName s @ CRLF,
                 ''USER '' @ userName s @ '' unknown unknown :'' @ realName s @ CRLF]\<rparr>),
            emitted := emitted s @ [Sig_connecting, Sig_password],
            allocated := Suc (allocated s),
            mainBuffer := Some \<lparr>ident = allocated s, pattern = ''*''\<rparr>\<rparr>)"
  using assms
  by (cases "pw = []")
    (simp_all add: q_connected_def socket_write_def emit_def createBuffer_def Let_def)

text \<open>
  C2 as stated fails. \<open>_q_connected\<close>, the slot of the socket's \<open>connected\<close> signal,
  creates the main buffer right after it has written the registration commands: in the
  state reached from a new session by that one notification \<open>mainBuffer()\<close> is non-null,
  although no line has been received and \<open>connected\<close> has not been emitted.
\<close>

theorem mainBuffer_counterexample:
  "map_option mainBuffer (run parseLine [Socket_connected []] IrcSession_new)
     = Some (Some \<lparr>ident = 0, pattern = ''*''\<rparr>)
   \<and> map_option linesYielded (run parseLine [Socket_connected []] IrcSession_new) = Some []
   \<and> map_option emitted (run parseLine [Socket_connected []] IrcSession_new)
     = Some [Sig_connecting, Sig_password]"
  by (simp add: q_connected_def socket_write_def emit_def createBuffer_def IrcSession_new_def
      IrcSessionPrivate_new_def setSocket_def QTcpSocket_new_def linesYielded_def)

text \<open>
  C2, amended. The main buffer is created by the transport's connected notification,
  not by the welcome numeric: in every state reached from a new session by inputs with
  no such notification \<open>mainBuffer()\<close> is null; each such notification, when the session
  has a socket, returns and leaves in \<open>mainBuffer\<close> a newly created buffer with pattern
  \<open>*\<close>; and a framing pass over received bytes, whatever lines it dispatches, the
  welcome numeric included, leaves \<open>mainBuffer\<close> as it was.
\<close>

theorem mainBuffer_created_on_transport_connected:
  "(run P inputs IrcSession_new = Some s \<and> (\<forall>pw. Socket_connected pw \<notin> set inputs)
      \<longrightarrow> mainBuffer s = None)
   \<and> (socket t = Some k \<longrightarrow>
        (\<exists>t'. q_connected pw t = Some t'
           \<and> mainBuffer t' = Some \<lparr>ident = allocated t, pattern = ''*''\<rparr>
           \<and> allocated t' = Suc (allocated t)))
   \<and> (q_readData P bytes u = Some u' \<longrightarrow> mainBuffer u' = mainBuffer u)"
proof (intro conjI impI)
  assume "run P inputs IrcSession_new = Some s \<and> (\<forall>pw. Socket_connected pw \<notin> set inputs)"
  then have "mainBuffer s = mainBuffer IrcSession_new" using mainBuffer_run by blast
  then show "mainBuffer s = None"
    by (simp add: IrcSession_new_def IrcSessionPrivate_new_def setSocket_def)
next
  assume "socket t = Some k"
  then show "\<exists>t'. q_connected pw t = Some t'
      \<and> mainBuffer t' = Some \<lparr>ident = allocated t, pattern = ''*''\<rparr>
      \<and> allocated t' = Suc (allocated t)"
    by (simp add: q_connected_result)
next
  assume "q_readData P bytes u = Some u'"
  then show "mainBuffer u' = mainBuffer u" by (rule mainBuffer_q_readData)
qed

lemma run_welcome:
  "run parseLine [Call_setNickName ''n'', Socket_readyRead ('':s 001 n :hi'' @ CRLF)] IrcSession_new
    = Some (IrcSession_new\<lparr>nickName := ''n'',
        emitted := [Sig_connected, Sig_messageReceived (IrcMessage Numeric ''s'' [''n'', ''hi''])],
        logged := [DebugLine '':s 001 n :hi'']\<rparr>)"
  by (simp add: q_readData_def IrcSession_new_def IrcSessionPrivate_new_def setSocket_def
      setNickName_def QTcpSocket_new_def readLines.simps readLines_body_def CRLF_def LF_def CR_def
      trimmed_def isSpace_def Let_def processLine_def welcome_line toInt_001 RPL_WELCOME_def
      received_def emit_def print_def)

theorem mainBuffer_created_on_transport_connected_witness:
  "run parseLine [Call_setNickName ''n'', Socket_readyRead ('':s 001 n :hi'' @ CRLF)]
      IrcSession_new \<noteq> None
   \<and> (\<forall>pw. Socket_connected pw
        \<notin> set [Call_setNickName ''n'', Socket_readyRead ('':s 001 n :hi'' @ CRLF)])
   \<and> mainBuffer (the (run parseLine
        [Call_setNickName ''n'', Socket_readyRead ('':s 001 n :hi'' @ CRLF)] IrcSession_new))
      = None
   \<and> socket IrcSession_new = Some QTcpSocket_new
   \<and> map_option mainBuffer (q_connected ''secret'' IrcSession_new)
      = Some (Some \<lparr>ident = 0, pattern = ''*''\<rparr>)
   \<and> q_readData parseLine ('':s 001 n :hi'' @ CRLF) IrcSession_new \<noteq> None
   \<and> mainBuffer (the (q_readData parseLine ('':s 001 n :hi'' @ CRLF) IrcSession_new)) = None"
proof -
  let ?inputs = "[Call_setNickName ''n'', Socket_readyRead ('':s 001 n :hi'' @ CRLF)]"
  let ?s = "IrcSession_new\<lparr>nickName := ''n'',
        emitted := [Sig_connected, Sig_messageReceived (IrcMessage Numeric ''s'' [''n'', ''hi''])],
        logged := [DebugLine '':s 001 n :hi'']\<rparr>"
  have h2: "socket IrcSession_new = Some QTcpSocket_new"
    and m: "mainBuffer IrcSession_new = None" and a: "allocated IrcSession_new = 0"
    by (simp_all add: IrcSession_new_def IrcSessionPrivate_new_def setSocket_def)
  have n: "\<forall>pw. Socket_connected pw \<notin> set ?inputs" by simp
  from h2 obtain u' where u': "q_readData parseLine ('':s 001 n :hi'' @ CRLF) IrcSession_new = Some u'"
    by (auto simp: q_readData_def)
  from mainBuffer_created_on_transport_connected
    [of parseLine ?inputs ?s IrcSession_new QTcpSocket_new "''secret''"
      "'':s 001 n :hi'' @ CRLF" IrcSession_new u']
    run_welcome n h2 u' m a
  show ?thesis by auto
qed

section \<open>The \<open>connected\<close> signal\<close>

lemma connected_dispatchCommand [simp]:
  "count_list (emitted (dispatchCommand pfx c ps s)) Sig_connected
    = count_list (emitted s) Sig_connected"
  by (simp add: dispatchCommand_def received_def emit_def raw_def split: option.splits)

lemma connected_processLine:
  "count_list (emitted (processLine P l s)) Sig_connected
    = count_list (emitted s) Sig_connected + (if isWelcome P l then 1 else 0)"
  by (cases "P l"; cases "toInt (fst (snd (P l)))")
    (simp_all add: processLine_def isWelcome_def Let_def received_def emit_def print_def)

text \<open>
  C3 as stated fails. Two welcome lines received by one session make \<open>processLine\<close> emit
  \<open>connected\<close> twice: the source tests the code of every numeric line and keeps no
  record of an earlier welcome.
\<close>

theorem connected_once_counterexample:
  "map_option emitted
     (run parseLine [Socket_readyRead ('':s 001 n :hi'' @ CRLF @ '':s 001 n :hi'' @ CRLF)]
        IrcSession_new)
   = Some [Sig_connected, Sig_messageReceived (IrcMessage Numeric ''s'' [''n'', ''hi'']),
           Sig_connected, Sig_messageReceived (IrcMessage Numeric ''s'' [''n'', ''hi''])]"
  by (simp add: q_readData_def IrcSession_new_def IrcSessionPrivate_new_def setSocket_def
      QTcpSocket_new_def readLines.simps readLines_body_def CRLF_def LF_def CR_def
      trimmed_def isSpace_def Let_def processLine_def welcome_line toInt_001 RPL_WELCOME_def
      received_def emit_def print_def)

text \<open>
  C3, amended. The \<open>connected\<close> signal is emitted once for each processed line whose
  command converts to the welcome code: after any sequence of lines has been processed
  in order, the number of \<open>connected\<close> emissions has grown by the number of welcome lines
  in the sequence.
\<close>

theorem connected_per_welcome_line:
  "count_list (emitted (fold (processLine P) lines s)) Sig_connected
    = count_list (emitted s) Sig_connected + length (filter (isWelcome P) lines)"
  by (induction lines arbitrary: s) (simp_all add: connected_processLine)

section \<open>Numeric replies\<close>

lemma numeric_dispatchCommand [simp]:
  "filter isNumericSignal (emitted (dispatchCommand pfx c ps s))
    = filter isNumericSignal (emitted s)"
  by (simp add: dispatchCommand_def received_def emit_def raw_def isNumericSignal_def
      split: option.splits)

text \<open>
  C5 as stated fails in both directions of its "if and only if". The token \<open>-5\<close> is not
  a non-negative integer, yet \<open>toInt\<close> converts it and the line is emitted as a Numeric
  message; the token \<open>99999999999\<close> is a non-negative integer, yet it does not fit an
  \<open>int\<close>, \<open>toInt\<close> fails and no message is emitted.
\<close>

theorem numeric_classification_counterexample:
  "\<not> nonNegativeInteger ''-5''
   \<and> emitted (processLine parseLine ''-5 x'' IrcSession_new)
       = [Sig_messageReceived (IrcMessage Numeric [] [''x''])]
   \<and> nonNegativeInteger ''99999999999''
   \<and> emitted (processLine parseLine ''99999999999 x'' IrcSession_new) = []"
  by (simp add: nonNegativeInteger_def isDigit_def processLine_def parseLine_def
      startsWith_def takeToken_def toInt_def trimmed_def isSpace_def digitsValue_def Let_def
      RPL_WELCOME_def received_def emit_def print_def dispatchCommand_def
      IrcSession_new_def IrcSessionPrivate_new_def setSocket_def)

text \<open>
  C5, amended. A line is classified as Numeric if and only if \<open>QString::toInt\<close> converts
  its command token. When it does, this comes before every textual command: the line
  emits exactly one Numeric message (after \<open>connected\<close> when the code is the welcome
  code) and changes nothing else but the debug log, so no textual branch runs and nothing
  is written to the socket. When it does not, the line emits no Numeric message.
\<close>

theorem numeric_classification:
  assumes "P line = (pfx, command, params)"
  shows "(toInt command \<noteq> None \<longrightarrow>
      processLine P line s =
        s\<lparr>emitted := emitted s @ (if isWelcome P line then [Sig_connected] else [])
            @ [Sig_messageReceived (IrcMessage Numeric pfx params)],
          logged := logged s @ [DebugLine line]\<rparr>)
    \<and> (toInt command = None \<longrightarrow>
      filter isNumericSignal (emitted (processLine P line s))
        = filter isNumericSignal (emitted s))"
  using assms
  by (cases "toInt command")
    (simp_all add: processLine_def isWelcome_def Let_def received_def emit_def print_def)

theorem numeric_classification_witness:
  "parseLine '':s 001 n :hi'' = (''s'', ''001'', [''n'', ''hi''])
   \<and> toInt ''001'' \<noteq> None
   \<and> processLine parseLine '':s 001 n :hi'' IrcSession_new =
       IrcSession_new\<lparr>emitted := [Sig_connected,
           Sig_messageReceived (IrcMessage Numeric ''s'' [''n'', ''hi''])],
         logged := [DebugLine '':s 001 n :hi'']\<rparr>
   \<and> parseLine ''JOIN #c'' = ([], ''JOIN'', [''#c''])
   \<and> toInt ''JOIN'' = None
   \<and> filter isNumericSignal (emitted (processLine parseLine ''JOIN #c'' IrcSession_new)) = []"
proof -
  have j: "parseLine ''JOIN #c'' = ([], ''JOIN'', [''#c''])"
    by (simp add: parseLine_def startsWith_def takeToken_def)
  have t: "toInt ''JOIN'' = None"
    by (simp add: toInt_def trimmed_def isSpace_def isDigit_def Let_def)
  have w: "isWelcome parseLine '':s 001 n :hi''"
    by (simp add: isWelcome_def welcome_line toInt_001 RPL_WELCOME_def)
  have e: "emitted IrcSession_new = []" "logged IrcSession_new = []"
    by (simp_all add: IrcSession_new_def IrcSessionPrivate_new_def setSocket_def)
  from numeric_classification [where P = parseLine and line = "'':s 001 n :hi''"
      and s = IrcSession_new, OF welcome_line]
    numeric_classification [where P = parseLine and line = "''JOIN #c''"
      and s = IrcSession_new, OF j] welcome_line toInt_001 j t w e
  show ?thesis by simp
qed

section \<open>PING\<close>

text \<open>
  C6. For a line whose command token is \<open>PING\<close>, processed by a session with a socket
  (a line is only ever framed from bytes read from the socket): exactly one write is
  added to the socket, \<open>PONG\<close>, a space, the first parameter (empty when there is none)
  and CRLF; no signal is emitted; and no field of the session changes but the socket's
  list of writes and the debug log.
\<close>

theorem ping_answered_with_pong:
  assumes "P line = (pfx, ''PING'', params)" and "socket s = Some k"
  shows "processLine P line s =
      s\<lparr>socket := Some (k\<lparr>written := written k @ [''PONG '' @ list_value params 0 @ CRLF]\<rparr>),
        logged := logged s @ [DebugLine line]\<rparr>
    \<and> emitted (processLine P line s) = emitted s"
  using assms
  by (simp add: processLine_def toInt_PING dispatchCommand_def raw_def print_def)

theorem ping_answered_with_pong_witness:
  "parseLine ''PING :abc'' = ([], ''PING'', [''abc''])
   \<and> socket IrcSession_new = Some QTcpSocket_new
   \<and> processLine parseLine ''PING :abc'' IrcSession_new =
       IrcSession_new\<lparr>socket := Some (QTcpSocket_new\<lparr>written := [''PONG abc'' @ CRLF]\<rparr>),
         logged := [DebugLine ''PING :abc'']\<rparr>
   \<and> emitted (processLine parseLine ''PING :abc'' IrcSession_new) = []"
proof -
  have p: "parseLine ''PING :abc'' = ([], ''PING'', [''abc''])"
    by (simp add: parseLine_def startsWith_def takeToken_def)
  have h: "socket IrcSession_new = Some QTcpSocket_new"
    and e: "emitted IrcSession_new = []" "logged IrcSession_new = []"
    by (simp_all add: IrcSession_new_def IrcSessionPrivate_new_def setSocket_def)
  have w: "written QTcpSocket_new = []" by (simp add: QTcpSocket_new_def)
  from ping_answered_with_pong [where P = parseLine and line = "''PING :abc''", OF p h] p h e w
  show ?thesis by (simp add: list_value_def)
qed

section \<open>Opening a session\<close>

text \<open>
  C7. When the user name, the nickname or the real name is empty, \<open>open()\<close> refuses: it
  prints one critical message at the call and returns; the socket, with its record of
  requests and writes, is as before, and so is every other field of the session.
\<close>

theorem open_refuses_empty_names:
  assumes "userName s = [] \<or> nickName s = [] \<or> realName s = []"
  shows "socket (IrcSession_open s) = socket s
    \<and> (\<exists>msg. IrcSession_open s = s\<lparr>logged := logged s @ [Critical msg]\<rparr>)"
  using assms by (auto simp: IrcSession_open_def print_def)

theorem open_refuses_empty_names_witness:
  "(userName (IrcSession_new\<lparr>userName := ''u'', nickName := ''n''\<rparr>) = []
      \<or> nickName (IrcSession_new\<lparr>userName := ''u'', nickName := ''n''\<rparr>) = []
      \<or> realName (IrcSession_new\<lparr>userName := ''u'', nickName := ''n''\<rparr>) = [])
   \<and> socket (IrcSession_open (IrcSession_new\<lparr>userName := ''u'', nickName := ''n''\<rparr>))
       = Some QTcpSocket_new
   \<and> IrcSession_open (IrcSession_new\<lparr>userName := ''u'', nickName := ''n''\<rparr>)
       = IrcSession_new\<lparr>userName := ''u'', nickName := ''n'',
           logged := [Critical ''IrcSession::open(): realName is empty!'']\<rparr>"
  using open_refuses_empty_names [of "IrcSession_new\<lparr>userName := ''u'', nickName := ''n''\<rparr>"]
  by (simp add: IrcSession_new_def IrcSessionPrivate_new_def setSocket_def
      IrcSession_open_def print_def)

section \<open>The registration handshake\<close>

text \<open>
  C8. When the socket reports that it is connected, \<open>_q_connected\<close> returns and has
  added to the socket's writes, in this order: the PASS command, if and only if the
  password obtained through the \<open>password\<close> signal is non-empty; the NICK command; the
  USER command. Nothing else is written and neither NICK nor USER is left out.
\<close>

theorem handshake_order:
  assumes "socket s = Some k"
  shows "\<exists>s'. q_connected pw s = Some s'
    \<and> map_option written (socket s') =
        Some (written k @ (if pw = [] then [] else [''PASS '' @ pw @ CRLF])
          @ [''NICK '' @ nickName s @ CRLF,
             ''USER '' @ userName s @ '' unknown unknown :'' @ realName s @ CRLF])"
  using assms by (simp add: q_connected_result)

theorem handshake_order_witness:
  "socket (IrcSession_new\<lparr>userName := ''u'', nickName := ''n'', realName := ''r''\<rparr>)
     = Some QTcpSocket_new
   \<and> (\<exists>s'. q_connected ''secret''
          (IrcSession_new\<lparr>userName := ''u'', nickName := ''n'', realName := ''r''\<rparr>) = Some s'
        \<and> map_option written (socket s') =
            Some [''PASS secret'' @ CRLF, ''NICK n'' @ CRLF,
                  ''USER u unknown unknown :r'' @ CRLF])"
proof -
  let ?s = "IrcSession_new\<lparr>userName := ''u'', nickName := ''n'', realName := ''r''\<rparr>"
  have h: "socket ?s = Some QTcpSocket_new"
    by (simp add: IrcSession_new_def IrcSessionPrivate_new_def setSocket_def)
  have w: "written QTcpSocket_new = []" by (simp add: QTcpSocket_new_def)
  from handshake_order [OF h, of "''secret''"] h w show ?thesis by simp
qed

section \<open>The setters\<close>

text \<open>
  C10. \<open>setHost\<close>, \<open>setPort\<close>, \<open>setUserName\<close> and \<open>setRealName\<close> assign their argument
  to their field in every connection state; while the socket is connecting or connected
  they print a warning first and assign all the same. No other field of the session
  changes.
\<close>

theorem setters_assign_and_frame:
  "setHost h s = s\<lparr>host := h, logged := logged s @
       (if isConnected s
        then [Warning ''IrcSession::setHost() has no effect until re-connect''] else [])\<rparr>
   \<and> setPort p s = s\<lparr>port := p, logged := logged s @
       (if isConnected s
        then [Warning ''IrcSession::setPort() has no effect until re-connect''] else [])\<rparr>
   \<and> setUserName n s = s\<lparr>userName := n, logged := logged s @
       (if isConnected s
        then [Warning ''IrcSession::setUserName() has no effect until re-connect''] else [])\<rparr>
   \<and> setRealName n s = s\<lparr>realName := n, logged := logged s @
       (if isConnected s
        then [Warning ''IrcSession::setRealName() has no effect until re-connect''] else [])\<rparr>"
  by (simp add: setHost_def setPort_def setUserName_def setRealName_def print_def)

section \<open>The buffer registry\<close>

text \<open>
  C1 as stated fails. \<open>addBuffer\<close> calls \<open>createBuffer\<close> on every call and inserts under
  the pattern as given: after \<open>addBuffer("#Foo")\<close> and \<open>addBuffer("#foo")\<close> on a new
  session the two calls have returned two different buffers, both are stored, and no
  signal has been emitted.
\<close>

theorem addBuffer_idempotent_counterexample:
  "fst (addBuffer ''#Foo'' IrcSession_new) = \<lparr>ident = 0, pattern = ''#Foo''\<rparr>
   \<and> fst (addBuffer ''#foo'' (snd (addBuffer ''#Foo'' IrcSession_new)))
       = \<lparr>ident = 1, pattern = ''#foo''\<rparr>
   \<and> buffers (snd (addBuffer ''#foo'' (snd (addBuffer ''#Foo'' IrcSession_new))))
       = [(''#foo'', \<lparr>ident = 1, pattern = ''#foo''\<rparr>),
          (''#Foo'', \<lparr>ident = 0, pattern = ''#Foo''\<rparr>)]
   \<and> emitted (snd (addBuffer ''#foo'' (snd (addBuffer ''#Foo'' IrcSession_new)))) = []"
  by (simp add: addBuffer_def createBuffer_def IrcSession_new_def IrcSessionPrivate_new_def
      setSocket_def)

text \<open>
  C1, amended. Every call of \<open>addBuffer\<close> creates a buffer: for all patterns \<open>p\<close> and \<open>p'\<close>,
  whether they differ in case only, differ otherwise or are equal, \<open>addBuffer(p)\<close> and
  then \<open>addBuffer(p')\<close> return two distinct buffers with the patterns \<open>p\<close> and \<open>p'\<close>; both
  are stored, the newer first, under the patterns as given; \<open>buffer(p')\<close> then returns
  the second; and no signal is emitted.
\<close>

theorem addBuffer_always_creates:
  "(case addBuffer p s of (b, s1) \<Rightarrow>
      case addBuffer p' s1 of (b', s2) \<Rightarrow>
        b \<noteq> b' \<and> pattern b = p \<and> pattern b' = p'
        \<and> buffers s2 = (p', b') # (p, b) # buffers s
        \<and> IrcSession_buffer p' s2 = Some b'
        \<and> emitted s2 = emitted s)"
  by (simp add: addBuffer_def createBuffer_def IrcSession_buffer_def)

end
